theory Spec2Isabelle
  imports Complex_Main
begin

section \<open>Values of the notebook\<close>

text \<open>
  The notebook \<^verbatim>\<open>spam_detect_app.ipynb\<close> defines three functions of its own:
  \<^verbatim>\<open>read_data\<close>, \<^verbatim>\<open>build_embedding_matrix\<close> and \<^verbatim>\<open>predict_spam\<close>. Everything else
  is a call into numpy, gensim, Keras, the zip module or the operating system. Each such
  call is modelled by a small function that follows the documented behaviour of the
  library, with its exceptions as values of the type \<open>error\<close>.
\<close>

datatype error =
    KeyError
  | IndexError
  | ValueError
  | OverflowError
  | MemoryError
  | EOFError
  | FileNotFoundError
  | IsADirectoryError
  | NotADirectoryError
  | OSError
  | BadZipFile
  | UnicodeDecodeError

text \<open>
  A file path and a vocabulary word are only compared, or cut at ASCII characters, so they
  are kept as \<open>string\<close>. A line of text is stripped of Unicode white space, so a text is a
  list of code points.
\<close>

type_synonym pystr = "nat list"

definition str :: "string \<Rightarrow> pystr" where
  "str s = map of_char s"

subsection \<open>Arrays, word vectors, files\<close>

text \<open>
  An array is its shape and its elements in row-major order. The element type is a
  parameter: the code only allocates zeros and copies vectors (the widening from the
  source's 32 bit floats to the matrix's 64 bit floats keeps every value).
\<close>

record 'a ndarray =
  shape :: "nat list"
  data :: "'a list"

text \<open>
  A gensim \<^verbatim>\<open>KeyedVectors\<close> object maps a word to its vector;
  \<^verbatim>\<open>get_vector\<close> raises KeyError for a word it does not have.
\<close>

type_synonym 'a keyed_vectors = "string \<Rightarrow> 'a list option"

definition get_vector :: "'a keyed_vectors \<Rightarrow> string \<Rightarrow> error + 'a list" where
  "get_vector word_vectors word =
     (case word_vectors word of None \<Rightarrow> Inl KeyError | Some v \<Rightarrow> Inr v)"

text \<open>
  A file is known by what its readers make of it: an array written by \<^verbatim>\<open>np.save\<close>, a
  UTF-8 text (the lines that iterating over the opened file yields, each with its line
  end; no lines for the empty file), a zip archive (its file members, each under the
  relative path that extraction gives it: no leading slash and no empty, \<^verbatim>\<open>.\<close> or
  \<^verbatim>\<open>..\<close> component), or any other content that is not empty.
\<close>

datatype 'a content =
    NpyFile "'a ndarray"
  | TextFile "pystr list"
  | ZipArchive "(string \<times> 'a content) list"
  | OtherFile

datatype 'a node = Dir | File "'a content"

text \<open>
  The environment of a call: the file system, the paths that the process may create or
  overwrite (permissions, free space), the sizes in bytes that the process can allocate,
  and the models that \<^verbatim>\<open>gensim.downloader.load\<close> can deliver. The file system maps
  a path to what is there; a path is a name, so two spellings of one path
  (\<^verbatim>\<open>a/b\<close> and \<^verbatim>\<open>a/./b\<close>) are two names.
\<close>

record 'a env =
  fs :: "string \<Rightarrow> 'a node option"
  writable :: "string \<Rightarrow> bool"
  allocates :: "nat \<Rightarrow> bool"
  models :: "string \<Rightarrow> 'a keyed_vectors option"

subsection \<open>numpy: allocation, rows\<close>

text \<open>
  The checks of numpy when it allocates an array of the given item size and dimensions:
  a dimension that is negative or does not fit a signed 64 bit index raises ValueError;
  so does a size in bytes, taken over the dimensions that are not zero, that does not fit
  one; and the allocation itself can fail with MemoryError.
\<close>

definition alloc_error :: "'a env \<Rightarrow> nat \<Rightarrow> int list \<Rightarrow> error option" where
  "alloc_error env itemsize dims =
     (if list_ex (\<lambda>d. d < 0 \<or> 2 ^ 63 \<le> d) dims then Some ValueError
      else if 2 ^ 63 \<le> int itemsize * prod_list (filter (\<lambda>d. d \<noteq> 0) dims) then Some ValueError
      else if \<not> allocates env (itemsize * nat (prod_list dims)) then Some MemoryError
      else None)"

text \<open>\<^verbatim>\<open>np.zeros((vocab_size, embedding_dim))\<close>: 64 bit floats, 8 bytes each.\<close>

definition np_zeros :: "('a::zero) env \<Rightarrow> nat \<Rightarrow> int \<Rightarrow> error + 'a ndarray" where
  "np_zeros env n d =
     (case alloc_error env 8 [int n, d] of
        Some e \<Rightarrow> Inl e
      | None \<Rightarrow> Inr \<lparr>shape = [n, nat d], data = replicate (n * nat d) 0\<rparr>)"

text \<open>
  Broadcasting a one-dimensional value \<open>v\<close> to the shape \<open>sh\<close> of the slot it is assigned
  to: its length is the slot's last dimension (the value is repeated over the leading
  dimensions) or it is 1 (the single element fills the slot); anything else raises
  ValueError. For a row of a two-dimensional array \<open>sh = [d]\<close>.
\<close>

definition broadcast_to :: "'a list \<Rightarrow> nat list \<Rightarrow> error + 'a list" where
  "broadcast_to v sh =
     (case v of
        [x] \<Rightarrow> Inr (replicate (prod_list sh) x)
      | _ \<Rightarrow> (if sh \<noteq> [] \<and> length v = last sh
              then Inr (concat (replicate (prod_list (butlast sh)) v))
              else Inl ValueError))"

text \<open>
  \<^verbatim>\<open>E[idx] = v\<close> for an integer \<open>idx\<close>: a negative index counts from the end, an index
  outside the first dimension raises IndexError, a value that does not broadcast raises
  ValueError; otherwise the slot \<open>idx\<close> of \<open>E\<close> is overwritten.
\<close>

definition setitem :: "'a ndarray \<Rightarrow> int \<Rightarrow> 'a list \<Rightarrow> error + 'a ndarray" where
  "setitem E idx v =
     (case shape E of
        [] \<Rightarrow> Inl IndexError
      | n # sh \<Rightarrow>
          (let i = (if idx < 0 then idx + int n else idx) in
           if i < 0 \<or> int n \<le> i then Inl IndexError
           else (case broadcast_to v sh of
                   Inl e \<Rightarrow> Inl e
                 | Inr row \<Rightarrow>
                     (let k = prod_list sh; off = nat i * k in
                      Inr (E\<lparr>data := take off (data E) @ row @ drop (off + k) (data E)\<rparr>)))))"

text \<open>\<^verbatim>\<open>E[idx]\<close> for an integer \<open>idx\<close>: the elements of slot \<open>idx\<close>.\<close>

definition getitem :: "'a ndarray \<Rightarrow> int \<Rightarrow> error + 'a list" where
  "getitem E idx =
     (case shape E of
        [] \<Rightarrow> Inl IndexError
      | n # sh \<Rightarrow>
          (let i = (if idx < 0 then idx + int n else idx) in
           if i < 0 \<or> int n \<le> i then Inl IndexError
           else (let k = prod_list sh in Inr (take k (drop (nat i * k) (data E))))))"

subsection \<open>Paths\<close>

text \<open>
  \<^verbatim>\<open>os.path.splitext\<close>, \<^verbatim>\<open>os.path.dirname\<close> and \<^verbatim>\<open>os.path.join\<close> as in
  \<^verbatim>\<open>posixpath\<close>. \<open>rfind\<close> is the index of the last occurrence, or \<open>-1\<close>. The extension
  starts at the last dot, when that dot comes after the last slash and after a character
  of the file name that is not a dot. The directory name is the part before the last
  slash, without trailing slashes unless it consists of slashes only.
\<close>

definition rfind :: "string \<Rightarrow> char \<Rightarrow> int" where
  "rfind p c =
     (if c \<in> set p then int (length p) - 1 - int (length (takeWhile (\<lambda>x. x \<noteq> c) (rev p)))
      else - 1)"

definition os_path_splitext :: "string \<Rightarrow> string \<times> string" where
  "os_path_splitext p =
     (let sepIndex = rfind p (CHR ''/''); dotIndex = rfind p (CHR ''.'') in
      if dotIndex > sepIndex
         \<and> list_ex (\<lambda>c. c \<noteq> CHR ''.'')
              (take (nat (dotIndex - (sepIndex + 1))) (drop (nat (sepIndex + 1)) p))
      then (take (nat dotIndex) p, drop (nat dotIndex) p)
      else (p, []))"

definition os_path_dirname :: "string \<Rightarrow> string" where
  "os_path_dirname p =
     (let head = take (nat (rfind p (CHR ''/'') + 1)) p in
      if head \<noteq> [] \<and> \<not> list_all (\<lambda>c. c = CHR ''/'') head
      then rev (dropWhile (\<lambda>c. c = CHR ''/'') (rev head))
      else head)"

definition startswith :: "string \<Rightarrow> string \<Rightarrow> bool" where
  "startswith s prefix = (take (length prefix) s = prefix)"

definition endswith :: "string \<Rightarrow> string \<Rightarrow> bool" where
  "endswith s suffix =
     (length suffix \<le> length s \<and> drop (length s - length suffix) s = suffix)"

definition os_path_join :: "string \<Rightarrow> string \<Rightarrow> string" where
  "os_path_join a b =
     (if startswith b ''/'' then b
      else if a = [] \<or> endswith a ''/'' then a @ b
      else a @ ''/'' @ b)"

definition os_path_exists :: "'a env \<Rightarrow> string \<Rightarrow> bool" where
  "os_path_exists env path = (fs env path \<noteq> None)"

definition os_path_isdir :: "'a env \<Rightarrow> string \<Rightarrow> bool" where
  "os_path_isdir env path = (fs env path = Some Dir)"

text \<open>
  The error of \<^verbatim>\<open>open(path, 'wb')\<close> and of the writing that follows, if there is one:
  the directory of the path must exist (the current directory and the root always do) and
  be a directory, the path must not be a directory, and the process must be able to write
  the file.
\<close>

definition create_error :: "'a env \<Rightarrow> string \<Rightarrow> error option" where
  "create_error env path =
     (let d = os_path_dirname path in
      case (if d = [] \<or> list_all (\<lambda>c. c = CHR ''/'') d then Some Dir else fs env d) of
        None \<Rightarrow> Some FileNotFoundError
      | Some (File c) \<Rightarrow> Some NotADirectoryError
      | Some Dir \<Rightarrow>
          (if fs env path = Some Dir then Some IsADirectoryError
           else if \<not> writable env path then Some OSError
           else None))"

subsection \<open>numpy and gensim on files\<close>

text \<open>
  What \<^verbatim>\<open>np.load(path)\<close> returns: the array of a file written by \<^verbatim>\<open>np.save\<close>, or,
  for a zip archive, an archive object over its members. An empty file raises EOFError,
  any other content ValueError (numpy takes it for a pickle, which it does not load).
\<close>

datatype 'a loaded = Array "'a ndarray" | NpzFile "(string \<times> 'a content) list"

definition np_load :: "'a env \<Rightarrow> string \<Rightarrow> error + 'a loaded" where
  "np_load env path =
     (case fs env path of
        None \<Rightarrow> Inl FileNotFoundError
      | Some Dir \<Rightarrow> Inl IsADirectoryError
      | Some (File (NpyFile E)) \<Rightarrow> Inr (Array E)
      | Some (File (ZipArchive members)) \<Rightarrow> Inr (NpzFile members)
      | Some (File (TextFile [])) \<Rightarrow> Inl EOFError
      | Some (File _) \<Rightarrow> Inl ValueError)"

text \<open>
  \<^verbatim>\<open>np.save(file, arr)\<close> with a file name: numpy appends \<^verbatim>\<open>.npy\<close> to a name that
  does not end with it, opens that file for writing and stores the array.
\<close>

definition npy_filename :: "string \<Rightarrow> string" where
  "npy_filename file = (if endswith file ''.npy'' then file else file @ ''.npy'')"

definition np_save :: "'a env \<Rightarrow> string \<Rightarrow> 'a ndarray \<Rightarrow> error + 'a env" where
  "np_save env file arr =
     (let file' = npy_filename file in
      case create_error env file' of
        Some e \<Rightarrow> Inl e
      | None \<Rightarrow> Inr (env\<lparr>fs := (fs env)(file' \<mapsto> File (NpyFile arr))\<rparr>))"

text \<open>\<^verbatim>\<open>api.load(name)\<close>: the named model, or an error when it cannot be had.\<close>

definition api_load :: "'a env \<Rightarrow> string \<Rightarrow> error + 'a keyed_vectors" where
  "api_load env name =
     (case models env name of None \<Rightarrow> Inl ValueError | Some word_vectors \<Rightarrow> Inr word_vectors)"

section \<open>The embedding builder\<close>

definition EMBEDDING_MODEL :: string where
  "EMBEDDING_MODEL = ''glove-wiki-gigaword-300''"

text \<open>
  The loop \<^verbatim>\<open>for word, idx in word2idx.items()\<close>. The dictionary is the list of its
  items in iteration order. The body is \<^verbatim>\<open>E[idx] = word_vectors.get_vector(word)\<close>
  inside \<^verbatim>\<open>try ... except KeyError: pass\<close>: a KeyError skips the word, any other
  error leaves the function.
\<close>

fun fill_rows :: "'a keyed_vectors \<Rightarrow> (string \<times> int) list \<Rightarrow> 'a ndarray \<Rightarrow> error + 'a ndarray" where
  "fill_rows word_vectors [] E = Inr E"
| "fill_rows word_vectors ((word, idx) # items) E =
     (case (case get_vector word_vectors word of
              Inl e \<Rightarrow> Inl e
            | Inr v \<Rightarrow> setitem E idx v) of
        Inl KeyError \<Rightarrow> fill_rows word_vectors items E
      | Inl e \<Rightarrow> Inl e
      | Inr E' \<Rightarrow> fill_rows word_vectors items E')"

text \<open>
  \<^verbatim>\<open>build_embedding_matrix(sequences, word2idx, embedding_dim, embedding_file)\<close>.
  The result is what the call returns or the exception, with the environment after the
  call.
\<close>

definition build_embedding_matrix ::
  "int list list \<Rightarrow> (string \<times> int) list \<Rightarrow> int \<Rightarrow> string \<Rightarrow> ('a::zero) env
     \<Rightarrow> (error + 'a loaded) \<times> 'a env" where
  "build_embedding_matrix sequences word2idx embedding_dim embedding_file env =
     (if os_path_exists env embedding_file
      then (np_load env embedding_file, env)
      else
        (let vocab_size = length word2idx in
         case np_zeros env vocab_size embedding_dim of
           Inl e \<Rightarrow> (Inl e, env)
         | Inr E0 \<Rightarrow>
             (case api_load env EMBEDDING_MODEL of
                Inl e \<Rightarrow> (Inl e, env)
              | Inr word_vectors \<Rightarrow>
                  (case fill_rows word_vectors word2idx E0 of
                     Inl e \<Rightarrow> (Inl e, env)
                   | Inr E \<Rightarrow>
                       (case np_save env embedding_file E of
                          Inl e \<Rightarrow> (Inl e, env)
                        | Inr env' \<Rightarrow> (Inr (Array E), env'))))))"

section \<open>The predictor\<close>

subsection \<open>Keras: tokenizer, padding, model\<close>

text \<open>
  The fitted tokenizer is an argument of \<^verbatim>\<open>predict_spam\<close>; all that is used of it is
  the list of word indices it gives for a text. \<^verbatim>\<open>texts_to_sequences\<close> gives one
  such list for each text.
\<close>

record tokenizer =
  sequence_of :: "pystr \<Rightarrow> int list"

definition texts_to_sequences :: "tokenizer \<Rightarrow> pystr list \<Rightarrow> int list list" where
  "texts_to_sequences tokenizer texts = map (sequence_of tokenizer) texts"

text \<open>
  \<^verbatim>\<open>np.asarray(trunc, dtype='int32')\<close> on a list of Python integers: an integer that
  does not fit 64 bits raises OverflowError, any other is stored in 32 bits (one outside
  the 32 bit range wraps around).
\<close>

definition as_int32 :: "int \<Rightarrow> error + int" where
  "as_int32 x =
     (if x < - (2 ^ 63) \<or> 2 ^ 63 \<le> x then Inl OverflowError
      else Inr ((x + 2 ^ 31) mod 2 ^ 32 - 2 ^ 31))"

fun as_int32_array :: "int list \<Rightarrow> error + int list" where
  "as_int32_array [] = Inr []"
| "as_int32_array (x # xs) =
     (case as_int32 x of
        Inl e \<Rightarrow> Inl e
      | Inr y \<Rightarrow>
          (case as_int32_array xs of
             Inl e \<Rightarrow> Inl e
           | Inr ys \<Rightarrow> Inr (y # ys)))"

text \<open>
  One row of \<^verbatim>\<open>pad_sequences(sequences, maxlen=maxlen)\<close> with the defaults
  (\<^verbatim>\<open>padding='pre'\<close>, \<^verbatim>\<open>truncating='pre'\<close>, \<^verbatim>\<open>value=0\<close>), for \<open>0 \<le> maxlen\<close>.
  The row starts as \<open>maxlen\<close> zeros and an empty sequence leaves it so. Otherwise
  \<^verbatim>\<open>trunc = s[-maxlen:]\<close> (for \<open>maxlen = 0\<close> this slice is all of \<open>s\<close>) is made an
  array and \<^verbatim>\<open>x[idx, -len(trunc):] = trunc\<close>: when \<open>trunc\<close> is longer than the row (only
  for \<open>maxlen = 0\<close>), a single element broadcasts into the empty slice and a longer
  value raises ValueError.
\<close>

definition pad_row :: "int \<Rightarrow> int list \<Rightarrow> error + int list" where
  "pad_row maxlen s =
     (if s = [] then Inr (replicate (nat maxlen) 0)
      else
        (case as_int32_array (if maxlen = 0 then s else drop (length s - nat maxlen) s) of
           Inl e \<Rightarrow> Inl e
         | Inr trunc \<Rightarrow>
             (if length trunc \<le> nat maxlen
              then Inr (replicate (nat maxlen - length trunc) 0 @ trunc)
              else if length trunc = 1 then Inr (replicate (nat maxlen) 0)
              else Inl ValueError)))"

fun pad_rows :: "int \<Rightarrow> int list list \<Rightarrow> error + int list list" where
  "pad_rows maxlen [] = Inr []"
| "pad_rows maxlen (s # sequences) =
     (case pad_row maxlen s of
        Inl e \<Rightarrow> Inl e
      | Inr row \<Rightarrow>
          (case pad_rows maxlen sequences of
             Inl e \<Rightarrow> Inl e
           | Inr rows \<Rightarrow> Inr (row # rows)))"

text \<open>
  The result array is allocated first, \<^verbatim>\<open>np.full((num_samples, maxlen), value,
  dtype='int32')\<close> with 4 bytes for each element, then filled row by row.
\<close>

definition pad_sequences :: "'a env \<Rightarrow> int list list \<Rightarrow> int \<Rightarrow> error + int list list" where
  "pad_sequences env sequences maxlen =
     (case alloc_error env 4 [int (length sequences), maxlen] of
        Some e \<Rightarrow> Inl e
      | None \<Rightarrow> pad_rows maxlen sequences)"

text \<open>
  A 32 bit float of the model's output. Only its comparison with a constant is used;
  a NaN is greater than nothing.
\<close>

datatype float = Finite real | PosInf | NegInf | NaN

fun float_gt :: "float \<Rightarrow> real \<Rightarrow> bool" where
  "float_gt (Finite x) c = (c < x)"
| "float_gt PosInf c = True"
| "float_gt NegInf c = False"
| "float_gt NaN c = False"

text \<open>
  The trained model is an argument too; \<^verbatim>\<open>model.predict\<close> gives one row of class
  scores for each input row, or fails.
\<close>

record keras_model =
  predict :: "int list list \<Rightarrow> error + float list list"

text \<open>\<^verbatim>\<open>xs[i]\<close> for a constant index \<open>i \<ge> 0\<close>.\<close>

definition subscript :: "'a list \<Rightarrow> nat \<Rightarrow> error + 'a" where
  "subscript xs i = (if i < length xs then Inr (xs ! i) else Inl IndexError)"

subsection \<open>predict_spam\<close>

text \<open>The first two statements of \<^verbatim>\<open>predict_spam\<close>: tokenise the message, pad the result.\<close>

definition padded_sequence :: "pystr \<Rightarrow> tokenizer \<Rightarrow> int \<Rightarrow> 'a env \<Rightarrow> error + int list list" where
  "padded_sequence message tokenizer max_seqlen env =
     (let sequence = texts_to_sequences tokenizer [message]
      in pad_sequences env sequence max_seqlen)"

text \<open>
  \<^verbatim>\<open>predict_spam(message, model, tokenizer, max_seqlen)\<close>, in an environment (of which
  only the memory is used).
\<close>

definition predict_spam ::
  "pystr \<Rightarrow> keras_model \<Rightarrow> tokenizer \<Rightarrow> int \<Rightarrow> 'a env \<Rightarrow> error + string" where
  "predict_spam message model tokenizer max_seqlen env =
     (case padded_sequence message tokenizer max_seqlen env of
        Inl e \<Rightarrow> Inl e
      | Inr padded \<Rightarrow>
          (case predict model padded of
             Inl e \<Rightarrow> Inl e
           | Inr prediction \<Rightarrow>
               (case subscript prediction 0 of
                  Inl e \<Rightarrow> Inl e
                | Inr scores \<Rightarrow>
                    (case subscript scores 1 of
                       Inl e \<Rightarrow> Inl e
                     | Inr spam_prediction \<Rightarrow>
                         Inr (if float_gt spam_prediction 0.5 then ''Spam'' else ''Not Spam'')))))"

section \<open>The data loader\<close>

subsection \<open>Archives, text files\<close>

text \<open>
  \<^verbatim>\<open>os.makedirs(path)\<close>: the directories on the way to the path and the path itself
  are made, one after the other, where they do not exist; a file on the way raises
  NotADirectoryError and a directory that the process may not make raises OSError. The
  result is the error, if there is one, and the environment after the call.
\<close>

definition parent_dirs :: "string \<Rightarrow> string list" where
  "parent_dirs path = map (\<lambda>i. take i path) (filter (\<lambda>i. path ! i = CHR ''/'') [1..<length path])"

fun mkdirs :: "string list \<Rightarrow> 'a env \<Rightarrow> error option \<times> 'a env" where
  "mkdirs [] env = (None, env)"
| "mkdirs (d # dirs) env =
     (case fs env d of
        Some Dir \<Rightarrow> mkdirs dirs env
      | Some (File c) \<Rightarrow> (Some NotADirectoryError, env)
      | None \<Rightarrow>
          (if writable env d then mkdirs dirs (env\<lparr>fs := (fs env)(d \<mapsto> Dir)\<rparr>)
           else (Some OSError, env)))"

definition os_makedirs :: "'a env \<Rightarrow> string \<Rightarrow> error option \<times> 'a env" where
  "os_makedirs env path = mkdirs (parent_dirs path @ [path]) env"

text \<open>
  The extraction of one member below the target directory: the directory of the member's
  path is made when it does not exist, then the file is written. The result is the error,
  if there is one, and the environment after the step.
\<close>

definition extract_member ::
  "string \<Rightarrow> string \<times> 'a content \<Rightarrow> 'a env \<Rightarrow> error option \<times> 'a env" where
  "extract_member target member env =
     (let targetpath = os_path_join target (fst member);
          upperdirs = os_path_dirname targetpath
      in case (if upperdirs \<noteq> [] \<and> \<not> os_path_exists env upperdirs
               then os_makedirs env upperdirs
               else (None, env)) of
           (Some e, env1) \<Rightarrow> (Some e, env1)
         | (None, env1) \<Rightarrow>
             (case create_error env1 targetpath of
                Some e \<Rightarrow> (Some e, env1)
              | None \<Rightarrow> (None, env1\<lparr>fs := (fs env1)(targetpath \<mapsto> File (snd member))\<rparr>)))"

text \<open>
  \<^verbatim>\<open>ZipFile(zip_path, 'r').extractall(target)\<close>: the members are extracted in order;
  the first error ends the extraction and leaves what was made before it.
\<close>

fun extract_members :: "string \<Rightarrow> (string \<times> 'a content) list \<Rightarrow> 'a env \<Rightarrow> error option \<times> 'a env" where
  "extract_members target [] env = (None, env)"
| "extract_members target (member # members) env =
     (case extract_member target member env of
        (Some e, env1) \<Rightarrow> (Some e, env1)
      | (None, env1) \<Rightarrow> extract_members target members env1)"

definition zip_extractall :: "'a env \<Rightarrow> string \<Rightarrow> string \<Rightarrow> error option \<times> 'a env" where
  "zip_extractall env zip_path target =
     (case fs env zip_path of
        None \<Rightarrow> (Some FileNotFoundError, env)
      | Some Dir \<Rightarrow> (Some IsADirectoryError, env)
      | Some (File (ZipArchive members)) \<Rightarrow> extract_members target members env
      | Some (File _) \<Rightarrow> (Some BadZipFile, env))"

text \<open>\<^verbatim>\<open>open(path, 'r', encoding='utf8')\<close> and the iteration over its lines.\<close>

definition open_text :: "'a env \<Rightarrow> string \<Rightarrow> error + pystr list" where
  "open_text env path =
     (case fs env path of
        None \<Rightarrow> Inl FileNotFoundError
      | Some Dir \<Rightarrow> Inl IsADirectoryError
      | Some (File (TextFile lines)) \<Rightarrow> Inr lines
      | Some (File _) \<Rightarrow> Inl UnicodeDecodeError)"

subsection \<open>Lines\<close>

text \<open>The code points that \<^verbatim>\<open>str.strip()\<close> removes from both ends: Python's white space.\<close>

definition isspace :: "nat \<Rightarrow> bool" where
  "isspace c =
     ((9 \<le> c \<and> c \<le> 13) \<or> (28 \<le> c \<and> c \<le> 32) \<or> c = 133 \<or> c = 160 \<or> c = 5760
      \<or> (8192 \<le> c \<and> c \<le> 8202) \<or> c = 8232 \<or> c = 8233 \<or> c = 8239 \<or> c = 8287
      \<or> c = 12288)"

definition strip :: "pystr \<Rightarrow> pystr" where
  "strip s = rev (dropWhile isspace (rev (dropWhile isspace s)))"

text \<open>\<^verbatim>\<open>s.split(sep)\<close> for a separator of one character: never an empty list.\<close>

fun split :: "pystr \<Rightarrow> nat \<Rightarrow> pystr list" where
  "split [] sep = [[]]"
| "split (c # s) sep =
     (if c = sep then [] # split s sep
      else (case split s sep of
              [] \<Rightarrow> [[c]]
            | part # parts \<Rightarrow> (c # part) # parts))"

definition TAB :: nat where
  "TAB = 9"

subsection \<open>read_data\<close>

text \<open>
  The loop \<^verbatim>\<open>for line in file\<close> with the two lists it appends to. Unpacking
  \<^verbatim>\<open>label, text = line.strip().split('\t')\<close> raises ValueError unless the split gives
  exactly two fields.
\<close>

fun read_lines :: "pystr list \<Rightarrow> int list \<Rightarrow> pystr list \<Rightarrow> error + (int list \<times> pystr list)" where
  "read_lines [] labels texts = Inr (labels, texts)"
| "read_lines (line # lines) labels texts =
     (case split (strip line) TAB of
        [label, text] \<Rightarrow>
          read_lines lines (labels @ [if label = str ''spam'' then 1 else 0]) (texts @ [text])
      | _ \<Rightarrow> Inl ValueError)"

definition read_data :: "string \<Rightarrow> 'a env \<Rightarrow> (error + (pystr list \<times> int list)) \<times> 'a env" where
  "read_data local_zip_path env =
     (let extracted_folder_path = fst (os_path_splitext local_zip_path);
          sms_collection_path = os_path_join extracted_folder_path ''SMSSpamCollection''
      in case (if \<not> os_path_isdir env extracted_folder_path
               then zip_extractall env local_zip_path extracted_folder_path
               else (None, env)) of
           (Some e, env') \<Rightarrow> (Inl e, env')
         | (None, env') \<Rightarrow>
             (case open_text env' sms_collection_path of
                Inl e \<Rightarrow> (Inl e, env')
              | Inr lines \<Rightarrow>
                  (case read_lines lines [] [] of
                     Inl e \<Rightarrow> (Inl e, env')
                   | Inr (labels, texts) \<Rightarrow> (Inr (texts, labels), env'))))"

section \<open>Notions used in the statements\<close>

text \<open>
  An array is well shaped when it has as many elements as its shape says; a matrix
  of \<open>n\<close> rows and \<open>d\<close> columns is a well shaped array of shape \<open>(n, d)\<close>.
\<close>

definition well_shaped :: "'a ndarray \<Rightarrow> bool" where
  "well_shaped E = (length (data E) = prod_list (shape E))"

definition matrix :: "nat \<Rightarrow> nat \<Rightarrow> 'a ndarray \<Rightarrow> bool" where
  "matrix n d E = (shape E = [n, d] \<and> length (data E) = n * d)"

text \<open>
  The label field of a line is the first field that \<^verbatim>\<open>line.strip().split('\t')\<close>
  gives, and its encoding is the value \<^verbatim>\<open>1 if label == 'spam' else 0\<close> that
  \<^verbatim>\<open>read_data\<close> appends for it.
\<close>

definition label_field :: "pystr \<Rightarrow> pystr" where
  "label_field line = (case split (strip line) TAB of part # parts \<Rightarrow> part | [] \<Rightarrow> [])"

definition encode_label :: "pystr \<Rightarrow> int" where
  "encode_label line = (if label_field line = str ''spam'' then 1 else 0)"

section \<open>Sample inputs\<close>

text \<open>
  A source of 300-dimensional vectors that knows two words, a vocabulary of three words
  with the padding entry, and the matrix of that vocabulary. An environment with a
  directory \<^verbatim>\<open>data\<close> and no cache file, in which every path may be written and a
  gigabyte can be allocated, and the same environment with a cache file that holds an
  array of another shape.
\<close>

definition toy_vectors :: "int keyed_vectors" where
  "toy_vectors = [''free'' \<mapsto> replicate 300 3, ''call'' \<mapsto> replicate 300 5]"

definition toy_vocab :: "(string \<times> int) list" where
  "toy_vocab = [(''free'', 1), (''zzz'', 2), (''PAD'', 0)]"

definition toy_matrix :: "int ndarray" where
  "toy_matrix = \<lparr>shape = [3, 300], data = replicate 300 0 @ replicate 300 3 @ replicate 300 0\<rparr>"

definition fresh_env :: "int env" where
  "fresh_env = \<lparr>fs = [''data'' \<mapsto> Dir], writable = (\<lambda>path. True),
                 allocates = (\<lambda>bytes. bytes < 2 ^ 30),
                 models = [''glove-wiki-gigaword-300'' \<mapsto> toy_vectors]\<rparr>"

definition stale_matrix :: "int ndarray" where
  "stale_matrix = \<lparr>shape = [1, 3], data = [1, 2, 3]\<rparr>"

definition stale_env :: "int env" where
  "stale_env = fresh_env\<lparr>fs := [''data'' \<mapsto> Dir, ''data/E.npy'' \<mapsto> File (NpyFile stale_matrix)]\<rparr>"

text \<open>
  A tokenizer that looks the words of a text up in a word index and drops the others, and
  a two-class model.
\<close>

definition toy_word_index :: "pystr \<Rightarrow> int option" where
  "toy_word_index = [str ''free'' \<mapsto> 1, str ''cash'' \<mapsto> 2, str ''hello'' \<mapsto> 3]"

definition toy_tokenizer :: tokenizer where
  "toy_tokenizer = \<lparr>sequence_of = (\<lambda>text. List.map_filter toy_word_index (split text 32))\<rparr>"

definition toy_model :: keras_model where
  "toy_model =
     \<lparr>predict = (\<lambda>rows. Inr (map (\<lambda>row. if 2 \<in> set row
                                          then [Finite 0.1, Finite 0.9]
                                          else [Finite 0.8, Finite 0.2]) rows))\<rparr>"

text \<open>
  An archive with a collection of four messages, in an otherwise empty directory.
\<close>

definition tsv_line :: "string \<Rightarrow> string \<Rightarrow> pystr" where
  "tsv_line label text = str label @ [TAB] @ str text @ [10]"

definition sms_lines :: "pystr list" where
  "sms_lines = [tsv_line ''ham'' ''Ok lar... Joking wif u oni...'',
                tsv_line ''spam'' ''WINNER!! You have won a prize'',
                tsv_line ''ham'' ''spam is what I had for lunch'',
                tsv_line ''spam'' ''Free entry in 2 a wkly comp'']"

definition sms_texts :: "pystr list" where
  "sms_texts = [str ''Ok lar... Joking wif u oni...'',
                str ''WINNER!! You have won a prize'',
                str ''spam is what I had for lunch'',
                str ''Free entry in 2 a wkly comp'']"

definition sms_env :: "int env" where
  "sms_env = \<lparr>fs = [''smsspamcollection.zip'' \<mapsto>
                      File (ZipArchive [(''SMSSpamCollection'', TextFile sms_lines),
                                        (''readme'', OtherFile)])],
               writable = (\<lambda>path. True), allocates = (\<lambda>bytes. bytes < 2 ^ 30),
               models = Map.empty\<rparr>"

lemmas toy_defs = fresh_env_def stale_env_def stale_matrix_def toy_vocab_def toy_vectors_def
  toy_matrix_def EMBEDDING_MODEL_def

section \<open>Arrays: writing and reading a row\<close>

lemma broadcast_to_length:
  "broadcast_to v sh = Inr row \<Longrightarrow> length row = prod_list sh"
proof (cases "\<exists>x. v = [x]")
  case True
  assume "broadcast_to v sh = Inr row"
  with True show ?thesis by (auto simp: broadcast_to_def)
next
  case False
  assume b: "broadcast_to v sh = Inr row"
  from False have nv: "\<And>x. v \<noteq> [x]" by simp
  from b nv have c: "sh \<noteq> [] \<and> length v = last sh \<and> row = concat (replicate (prod_list (butlast sh)) v)"
    by (auto simp: broadcast_to_def split: list.splits if_splits)
  then have "prod_list sh = prod_list (butlast sh) * last sh"
    by (metis append_butlast_last_id prod_list.append prod_list.Cons prod_list.Nil mult.right_neutral)
  moreover have "length (concat (replicate m v)) = m * length v" for m
    by (induction m) auto
  ultimately show ?thesis using c by simp
qed

lemma broadcast_to_row: "broadcast_to v [length v] = Inr v"
  by (cases v rule: list.exhaust; simp add: broadcast_to_def split: list.splits)

lemma slot_bound:
  assumes "i < n" shows "i * k + k \<le> n * (k::nat)"
proof -
  from assms have "Suc i \<le> n" by simp
  then have "Suc i * k \<le> n * k" by (rule mult_le_mono1)
  then show ?thesis by (simp add: add.commute)
qed

lemma setitem_shape:
  assumes "setitem E idx v = Inr E'"
  shows "shape E' = shape E"
  using assms
  by (auto simp: setitem_def Let_def split: list.splits if_splits sum.splits)

lemma setitem_InrE:
  assumes "setitem E idx v = Inr E'"
  obtains n sh row i where "shape E = n # sh" and "i < n"
    and "int i = (if idx < 0 then idx + int n else idx)"
    and "broadcast_to v sh = Inr row"
    and "E' = E\<lparr>data := take (i * prod_list sh) (data E) @ row @ drop (i * prod_list sh + prod_list sh) (data E)\<rparr>"
proof -
  from assms obtain n sh where sh: "shape E = n # sh"
    by (cases "shape E") (auto simp: setitem_def)
  define j where "j = (if idx < 0 then idx + int n else idx)"
  from assms sh have rng: "0 \<le> j" "j < int n"
    by (auto simp: setitem_def Let_def j_def split: if_splits)
  from assms sh rng obtain row where row: "broadcast_to v sh = Inr row"
    by (cases "broadcast_to v sh") (auto simp: setitem_def Let_def j_def split: if_splits)
  from assms sh rng row
  have "E' = E\<lparr>data := take (nat j * prod_list sh) (data E) @ row @ drop (nat j * prod_list sh + prod_list sh) (data E)\<rparr>"
    by (auto simp: setitem_def Let_def j_def split: if_splits)
  moreover from rng have "nat j < n" "int (nat j) = (if idx < 0 then idx + int n else idx)"
    by (auto simp: j_def)
  ultimately show thesis using sh row that by blast
qed

lemma setitem_well_shaped:
  assumes "setitem E idx v = Inr E'" and "well_shaped E"
  shows "well_shaped E'"
proof -
  from assms(1) obtain n sh row i where sh: "shape E = n # sh" and i: "i < n"
    and row: "broadcast_to v sh = Inr row"
    and E': "E' = E\<lparr>data := take (i * prod_list sh) (data E) @ row @ drop (i * prod_list sh + prod_list sh) (data E)\<rparr>"
    by (rule setitem_InrE)
  let ?k = "prod_list sh"
  from assms(2) sh have len: "length (data E) = n * ?k" by (simp add: well_shaped_def)
  from i have b: "i * ?k + ?k \<le> n * ?k" by (rule slot_bound)
  from row have "length row = ?k" by (rule broadcast_to_length)
  with len b have "length (data E') = n * ?k" by (simp add: E')
  with sh show ?thesis by (simp add: well_shaped_def E')
qed

lemma splice_length:
  assumes "a + k \<le> length d" and "length row = k"
  shows "length (take a d @ row @ drop (a + k) d) = length d"
  using assms by simp

lemma splice_nth:
  assumes "a + k \<le> length d" and "length row = k" and "m < length d"
    and "m < a \<or> a + k \<le> m"
  shows "(take a d @ row @ drop (a + k) d) ! m = d ! m"
  using assms by (auto simp: nth_append)

lemma splice_same:
  assumes "a + k \<le> length d" and "length row = k"
  shows "take k (drop a (take a d @ row @ drop (a + k) d)) = row"
  using assms by simp

lemma window_nth:
  assumes "a + k \<le> length d" and "t < k"
  shows "take k (drop a d) ! t = d ! (a + t)"
  using assms by simp

lemma window_length:
  assumes "a + k \<le> length d"
  shows "length (take k (drop a d)) = k"
  using assms by simp

lemma splice_other:
  assumes a: "a + k \<le> length d" and b: "b + k \<le> length d" and row: "length row = k"
    and out: "b + k \<le> a \<or> a + k \<le> b"
  shows "take k (drop b (take a d @ row @ drop (a + k) d)) = take k (drop b d)"
proof -
  define d' where "d' = take a d @ row @ drop (a + k) d"
  from a row have len': "length d' = length d" unfolding d'_def by (rule splice_length)
  have "take k (drop b d') = take k (drop b d)"
  proof (rule nth_equalityI)
    from b len' show "length (take k (drop b d')) = length (take k (drop b d))"
      by (simp add: window_length)
    fix t assume "t < length (take k (drop b d'))"
    with b len' have t: "t < k" by (simp add: window_length)
    from out t have out': "b + t < a \<or> a + k \<le> b + t" by auto
    from b t have m: "b + t < length d" by simp
    from b len' t have "take k (drop b d') ! t = d' ! (b + t)" by (simp add: window_nth)
    also from a row m out' have "\<dots> = d ! (b + t)" unfolding d'_def by (rule splice_nth)
    also from b t have "\<dots> = take k (drop b d) ! t" by (simp add: window_nth)
    finally show "take k (drop b d') ! t = take k (drop b d) ! t" .
  qed
  then show ?thesis by (simp only: d'_def)
qed

lemma slot_same:
  assumes "length d = n * k" and "i < n" and "length row = k"
  shows "take k (drop (i * k) (take (i * k) d @ row @ drop (i * k + k) d)) = row"
proof -
  from assms(2) have "i * k + k \<le> n * k" by (rule slot_bound)
  with assms(1) have "i * k + k \<le> length d" by simp
  then show ?thesis using assms(3) by (rule splice_same)
qed

lemma slot_other:
  assumes "length d = n * k" and "i < n" and "j < n" and "j \<noteq> i" and "length row = k"
  shows "take k (drop (j * k) (take (i * k) d @ row @ drop (i * k + k) d)) = take k (drop (j * k) d)"
proof -
  from assms(2) have "i * k + k \<le> n * k" by (rule slot_bound)
  with assms(1) have bi: "i * k + k \<le> length d" by simp
  from assms(3) have "j * k + k \<le> n * k" by (rule slot_bound)
  with assms(1) have bj: "j * k + k \<le> length d" by simp
  have out: "j * k + k \<le> i * k \<or> i * k + k \<le> j * k"
  proof (cases "j < i")
    case True
    then have "j * k + k \<le> i * k" by (rule slot_bound)
    then show ?thesis ..
  next
    case False
    with assms(4) have "i < j" by simp
    then have "i * k + k \<le> j * k" by (rule slot_bound)
    then show ?thesis ..
  qed
  from bi bj assms(5) out show ?thesis by (rule splice_other)
qed

lemma matrix_well_shaped: "matrix n d E \<Longrightarrow> well_shaped E"
  by (simp add: matrix_def well_shaped_def)

lemma getitem_matrix:
  assumes "matrix n d E" and "0 \<le> idx" and "idx < int n"
  shows "getitem E idx = Inr (take d (drop (nat idx * d) (data E)))"
  using assms by (simp add: getitem_def matrix_def)

lemma setitem_matrix:
  assumes "matrix n d E" and "0 \<le> idx" and "idx < int n" and "length v = d"
  shows "setitem E idx v =
           Inr (E\<lparr>data := take (nat idx * d) (data E) @ v @ drop (nat idx * d + d) (data E)\<rparr>)"
proof -
  from assms(4) have "broadcast_to v [d] = Inr v" using broadcast_to_row [of v] by simp
  with assms(1,2,3) show ?thesis by (simp add: setitem_def matrix_def Let_def)
qed

lemma setitem_row:
  assumes m: "matrix n d E" and lo: "0 \<le> idx" and hi: "idx < int n" and v: "length v = d"
  shows "\<exists>E'. setitem E idx v = Inr E' \<and> matrix n d E' \<and> getitem E' idx = Inr v
           \<and> (\<forall>j. 0 \<le> j \<and> j < int n \<and> j \<noteq> idx \<longrightarrow> getitem E' j = getitem E j)"
proof -
  define d' where "d' = take (nat idx * d) (data E) @ v @ drop (nat idx * d + d) (data E)"
  define E' where "E' = E\<lparr>data := d'\<rparr>"
  from m lo hi v have set: "setitem E idx v = Inr E'" unfolding E'_def d'_def by (rule setitem_matrix)
  from m have len: "length (data E) = n * d" and sh: "shape E = [n, d]" by (simp_all add: matrix_def)
  from lo hi have i: "nat idx < n" by simp
  then have "nat idx * d + d \<le> n * d" by (rule slot_bound)
  with len have bi: "nat idx * d + d \<le> length (data E)" by simp
  from bi v have "length d' = length (data E)" unfolding d'_def by (rule splice_length)
  with len sh have m': "matrix n d E'" by (simp add: matrix_def E'_def)
  from len i v have "take d (drop (nat idx * d) d') = v" unfolding d'_def by (rule slot_same)
  with m' lo hi have same: "getitem E' idx = Inr v" by (simp add: getitem_matrix E'_def)
  have other: "getitem E' j = getitem E j" if "0 \<le> j" and "j < int n" and "j \<noteq> idx" for j
  proof -
    from that lo have j: "nat j < n" "nat j \<noteq> nat idx" by simp_all
    from len i j v have "take d (drop (nat j * d) d') = take d (drop (nat j * d) (data E))"
      unfolding d'_def by (rule slot_other)
    moreover from m' that have "getitem E' j = Inr (take d (drop (nat j * d) d'))"
      by (simp add: getitem_matrix E'_def)
    moreover from m that have "getitem E j = Inr (take d (drop (nat j * d) (data E)))"
      by (simp add: getitem_matrix)
    ultimately show ?thesis by simp
  qed
  from set m' same other show ?thesis by blast
qed

lemma broadcast_to_ok:
  assumes "length v = d \<or> length v = 1"
  shows "\<exists>row. broadcast_to v [d] = Inr row"
proof (cases "length v = 1")
  case True
  then obtain x where "v = [x]" by (cases v) auto
  then show ?thesis by (simp add: broadcast_to_def)
next
  case False
  with assms have "length v = d" by simp
  then show ?thesis using broadcast_to_row [of v] by auto
qed

lemma setitem_ok:
  assumes m: "matrix n d E" and lo: "- int n \<le> idx" and hi: "idx < int n"
    and v: "length v = d \<or> length v = 1"
  shows "\<exists>E'. setitem E idx v = Inr E' \<and> matrix n d E'"
proof -
  from v obtain row where "broadcast_to v [d] = Inr row" using broadcast_to_ok by blast
  moreover define i where "i = (if idx < 0 then idx + int n else idx)"
  moreover from lo hi have "0 \<le> i" "i < int n" by (simp_all add: i_def)
  moreover from m have "shape E = [n, d]" by (simp add: matrix_def)
  ultimately have "\<exists>E'. setitem E idx v = Inr E'"
    by (simp add: setitem_def Let_def)
  then obtain E' where s: "setitem E idx v = Inr E'" ..
  from s have "shape E' = shape E" by (rule setitem_shape)
  moreover from s m have "well_shaped E'" by (auto intro: setitem_well_shaped matrix_well_shaped)
  ultimately have "matrix n d E'" using m by (simp add: matrix_def well_shaped_def)
  with s show ?thesis by blast
qed

lemma setitem_no_KeyError: "setitem E idx v \<noteq> Inl KeyError"
  by (auto simp: setitem_def Let_def broadcast_to_def split: list.splits if_splits sum.splits)

lemma alloc_error_nonneg:
  assumes "alloc_error env itemsize dims = None" and "d \<in> set dims"
  shows "0 \<le> d"
proof (rule ccontr)
  assume "\<not> 0 \<le> d"
  then have "d < 0 \<or> 2 ^ 63 \<le> d" by simp
  with assms(2) have "list_ex (\<lambda>d. d < 0 \<or> 2 ^ 63 \<le> d) dims"
    unfolding list_ex_iff by (rule bexI [rotated])
  with assms(1) show False by (simp add: alloc_error_def)
qed

lemma np_zeros_matrix:
  assumes "np_zeros env n d = Inr E"
  shows "0 \<le> d \<and> matrix n (nat d) E"
proof -
  from assms have ok: "alloc_error env 8 [int n, d] = None"
    and E: "E = \<lparr>shape = [n, nat d], data = replicate (n * nat d) 0\<rparr>"
    by (auto simp: np_zeros_def split: option.splits)
  from ok have "0 \<le> d" by (rule alloc_error_nonneg) simp
  with E show ?thesis by (simp add: matrix_def)
qed

lemma np_zeros_ok:
  assumes "alloc_error env 8 [int n, d] = None"
  shows "\<exists>E. np_zeros env n d = Inr E"
  using assms by (simp add: np_zeros_def)

lemma getitem_zeros:
  assumes "np_zeros env n d = Inr E" and "0 \<le> idx" and "idx < int n"
  shows "getitem E idx = Inr (replicate (nat d) 0)"
proof -
  from assms(1) have E: "E = \<lparr>shape = [n, nat d], data = replicate (n * nat d) 0\<rparr>"
    by (auto simp: np_zeros_def split: option.splits)
  then have m: "matrix n (nat d) E" by (simp add: matrix_def)
  from assms(2,3) have "nat idx < n" by simp
  then have "nat idx * nat d + nat d \<le> n * nat d" by (rule slot_bound)
  then have "take (nat d) (drop (nat idx * nat d) (replicate (n * nat d) (0::'a))) = replicate (nat d) 0"
    by (simp add: min_def)
  with m assms(2,3) E show ?thesis by (simp add: getitem_matrix)
qed

section \<open>The loop over the vocabulary\<close>

lemma fill_rows_skip:
  assumes "word_vectors word = None"
  shows "fill_rows word_vectors ((word, idx) # items) E = fill_rows word_vectors items E"
  using assms by (simp add: get_vector_def)

lemma fill_rows_set:
  assumes "word_vectors word = Some v" and "setitem E idx v = Inr E'"
  shows "fill_rows word_vectors ((word, idx) # items) E = fill_rows word_vectors items E'"
  using assms by (simp add: get_vector_def)

lemma fill_rows_raise:
  assumes "word_vectors word = Some v" and "setitem E idx v = Inl e"
  shows "fill_rows word_vectors ((word, idx) # items) E =
           (if e = KeyError then fill_rows word_vectors items E else Inl e)"
  using assms by (cases e) (simp_all add: get_vector_def)

declare fill_rows.simps(2) [simp del]

lemma fill_rows_rows:
  assumes "matrix n d E"
    and "\<forall>(word, idx) \<in> set items. 0 \<le> idx \<and> idx < int n"
    and "\<forall>(word, idx) \<in> set items. \<forall>v. word_vectors word = Some v \<longrightarrow> length v = d"
    and "distinct (map snd items)"
  shows "\<exists>E'. fill_rows word_vectors items E = Inr E' \<and> matrix n d E'
           \<and> (\<forall>(word, idx) \<in> set items.
                 getitem E' idx = (case word_vectors word of Some v \<Rightarrow> Inr v | None \<Rightarrow> getitem E idx))
           \<and> (\<forall>j. 0 \<le> j \<and> j < int n \<and> j \<notin> snd ` set items \<longrightarrow> getitem E' j = getitem E j)"
  using assms
proof (induction items arbitrary: E)
  case Nil
  then show ?case by simp
next
  case (Cons item items)
  obtain word idx where item: "item = (word, idx)" by (cases item)
  from Cons.prems(2) item have rng: "0 \<le> idx" "idx < int n"
    and rngs: "\<forall>(word, idx) \<in> set items. 0 \<le> idx \<and> idx < int n" by auto
  from Cons.prems(3) item have lens: "\<forall>(word, idx) \<in> set items. \<forall>v. word_vectors word = Some v \<longrightarrow> length v = d"
    by auto
  from Cons.prems(4) item have fresh: "idx \<notin> snd ` set items" and dist: "distinct (map snd items)"
    by auto
  show ?case
  proof (cases "word_vectors word")
    case None
    from Cons.IH [OF Cons.prems(1) rngs lens dist]
    obtain E' where r: "fill_rows word_vectors items E = Inr E'" and m: "matrix n d E'"
      and rows: "\<forall>(word, idx) \<in> set items.
                 getitem E' idx = (case word_vectors word of Some v \<Rightarrow> Inr v | None \<Rightarrow> getitem E idx)"
      and rest: "\<forall>j. 0 \<le> j \<and> j < int n \<and> j \<notin> snd ` set items \<longrightarrow> getitem E' j = getitem E j"
      by blast
    from None r have "fill_rows word_vectors (item # items) E = Inr E'"
      by (simp add: item fill_rows_skip)
    moreover from rest rng fresh have "getitem E' idx = getitem E idx" by blast
    with None rows have "\<forall>(word, idx) \<in> set (item # items).
                 getitem E' idx = (case word_vectors word of Some v \<Rightarrow> Inr v | None \<Rightarrow> getitem E idx)"
      by (simp add: item)
    moreover from rest have "\<forall>j. 0 \<le> j \<and> j < int n \<and> j \<notin> snd ` set (item # items) \<longrightarrow> getitem E' j = getitem E j"
      by simp
    ultimately show ?thesis using m by blast
  next
    case (Some v)
    with Cons.prems(3) item have v: "length v = d" by auto
    from setitem_row [OF Cons.prems(1) rng v]
    obtain E1 where s: "setitem E idx v = Inr E1" and m1: "matrix n d E1"
      and same: "getitem E1 idx = Inr v"
      and other: "\<And>j. 0 \<le> j \<Longrightarrow> j < int n \<Longrightarrow> j \<noteq> idx \<Longrightarrow> getitem E1 j = getitem E j"
      by blast
    from Cons.IH [OF m1 rngs lens dist]
    obtain E' where r: "fill_rows word_vectors items E1 = Inr E'" and m: "matrix n d E'"
      and rows: "\<forall>(word, idx) \<in> set items.
                 getitem E' idx = (case word_vectors word of Some v \<Rightarrow> Inr v | None \<Rightarrow> getitem E1 idx)"
      and rest: "\<forall>j. 0 \<le> j \<and> j < int n \<and> j \<notin> snd ` set items \<longrightarrow> getitem E' j = getitem E1 j"
      by blast
    from Some s r have run: "fill_rows word_vectors (item # items) E = Inr E'"
      by (simp add: item fill_rows_set)
    from rest rng fresh same have here: "getitem E' idx = Inr v" by simp
    have there: "getitem E' j = (case word_vectors w of Some v \<Rightarrow> Inr v | None \<Rightarrow> getitem E j)"
      if "(w, j) \<in> set items" for w j
    proof -
      from that fresh have "j \<noteq> idx" by force
      moreover from that rngs have "0 \<le> j" "j < int n" by auto
      ultimately have eq: "getitem E1 j = getitem E j" by (simp add: other)
      from rows that
      have "getitem E' j = (case word_vectors w of Some v \<Rightarrow> Inr v | None \<Rightarrow> getitem E1 j)"
        by blast
      with eq show ?thesis by (simp split: option.split)
    qed
    from here there Some have "\<forall>(word, idx) \<in> set (item # items).
                 getitem E' idx = (case word_vectors word of Some v \<Rightarrow> Inr v | None \<Rightarrow> getitem E idx)"
      by (auto simp: item)
    moreover from rest other have "\<forall>j. 0 \<le> j \<and> j < int n \<and> j \<notin> snd ` set (item # items) \<longrightarrow> getitem E' j = getitem E j"
      by (simp add: item)
    ultimately show ?thesis using m run by blast
  qed
qed

lemma fill_rows_ok:
  assumes "matrix n d E"
    and "\<forall>(word, idx) \<in> set items. - int n \<le> idx \<and> idx < int n"
    and "\<forall>(word, idx) \<in> set items. \<forall>v. word_vectors word = Some v \<longrightarrow> length v = d \<or> length v = 1"
  shows "\<exists>E'. fill_rows word_vectors items E = Inr E'"
  using assms
proof (induction items arbitrary: E)
  case Nil
  then show ?case by simp
next
  case (Cons item items)
  obtain word idx where item: "item = (word, idx)" by (cases item)
  from Cons.prems(2) item have rng: "- int n \<le> idx" "idx < int n"
    and rngs: "\<forall>(word, idx) \<in> set items. - int n \<le> idx \<and> idx < int n" by auto
  from Cons.prems(3) item have lens: "\<forall>(word, idx) \<in> set items. \<forall>v. word_vectors word = Some v \<longrightarrow> length v = d \<or> length v = 1"
    by auto
  show ?case
  proof (cases "word_vectors word")
    case None
    with Cons.IH [OF Cons.prems(1) rngs lens] show ?thesis
      by (simp add: item fill_rows_skip)
  next
    case (Some v)
    with Cons.prems(3) item have v: "length v = d \<or> length v = 1" by auto
    from setitem_ok [OF Cons.prems(1) rng v]
    obtain E1 where s: "setitem E idx v = Inr E1" and m1: "matrix n d E1" by blast
    from Cons.IH [OF m1 rngs lens] Some s show ?thesis
      by (simp add: item fill_rows_set)
  qed
qed

lemma fill_rows_shape:
  assumes "fill_rows word_vectors items E = Inr E'"
  shows "shape E' = shape E \<and> (well_shaped E \<longrightarrow> well_shaped E')"
  using assms
proof (induction items arbitrary: E)
  case Nil
  then show ?case by simp
next
  case (Cons item items)
  obtain word idx where item: "item = (word, idx)" by (cases item)
  show ?case
  proof (cases "word_vectors word")
    case None
    with Cons.prems have "fill_rows word_vectors items E = Inr E'"
      by (simp add: item fill_rows_skip)
    then show ?thesis by (rule Cons.IH)
  next
    case (Some v)
    show ?thesis
    proof (cases "setitem E idx v")
      case (Inl e)
      with setitem_no_KeyError [of E idx v] have "e \<noteq> KeyError" by auto
      with Some Inl Cons.prems have False
        by (simp add: item fill_rows_raise)
      then show ?thesis ..
    next
      case (Inr E1)
      with Some Cons.prems have "fill_rows word_vectors items E1 = Inr E'"
        by (simp add: item fill_rows_set)
      then have "shape E' = shape E1 \<and> (well_shaped E1 \<longrightarrow> well_shaped E')" by (rule Cons.IH)
      with Inr show ?thesis by (auto simp: setitem_shape setitem_well_shaped)
    qed
  qed
qed

lemma fill_rows_no_KeyError: "fill_rows word_vectors items E \<noteq> Inl KeyError"
proof (induction items arbitrary: E)
  case Nil
  show ?case by simp
next
  case (Cons item items)
  obtain word idx where item: "item = (word, idx)" by (cases item)
  show ?case
  proof (cases "word_vectors word")
    case None
    with Cons.IH show ?thesis by (simp add: item fill_rows_skip)
  next
    case (Some v)
    show ?thesis
    proof (cases "setitem E idx v")
      case (Inl e)
      with Some Cons.IH show ?thesis by (simp add: item fill_rows_raise)
    next
      case (Inr E1)
      with Some Cons.IH show ?thesis by (simp add: item fill_rows_set)
    qed
  qed
qed

section \<open>The embedding builder: the two paths\<close>

text \<open>
  What a call on the cache-miss path amounts to when it returns, and when it does.
\<close>

lemma build_miss_InrE:
  assumes miss: "\<not> os_path_exists env embedding_file"
    and ret: "build_embedding_matrix sequences word2idx embedding_dim embedding_file env = (Inr r, env')"
  obtains E0 word_vectors E where "r = Array E"
    and "np_zeros env (length word2idx) embedding_dim = Inr E0"
    and "models env EMBEDDING_MODEL = Some word_vectors"
    and "fill_rows word_vectors word2idx E0 = Inr E"
    and "np_save env embedding_file E = Inr env'"
proof -
  from miss ret obtain E0 :: "'a ndarray"
    where z: "np_zeros env (length word2idx) embedding_dim = Inr E0"
    by (cases "np_zeros env (length word2idx) embedding_dim :: error + 'a ndarray")
       (auto simp: build_embedding_matrix_def)
  from miss ret z obtain word_vectors where l: "models env EMBEDDING_MODEL = Some word_vectors"
    by (cases "models env EMBEDDING_MODEL")
       (auto simp: build_embedding_matrix_def api_load_def)
  from miss ret z l obtain E1 where f: "fill_rows word_vectors word2idx E0 = Inr E1"
    by (cases "fill_rows word_vectors word2idx E0")
       (auto simp: build_embedding_matrix_def api_load_def)
  from miss ret z l f obtain env1 where s: "np_save env embedding_file E1 = Inr env1"
    by (cases "np_save env embedding_file E1")
       (auto simp: build_embedding_matrix_def api_load_def)
  from miss ret z l f s have "r = Array E1" "env1 = env'"
    by (auto simp: build_embedding_matrix_def api_load_def)
  with z l f s show thesis using that by blast
qed

lemma build_miss_run:
  assumes "\<not> os_path_exists env embedding_file"
    and "np_zeros env (length word2idx) embedding_dim = Inr E0"
    and "models env EMBEDDING_MODEL = Some word_vectors"
    and "fill_rows word_vectors word2idx E0 = Inr E"
    and "create_error env (npy_filename embedding_file) = None"
  shows "build_embedding_matrix sequences word2idx embedding_dim embedding_file env =
           (Inr (Array E), env\<lparr>fs := (fs env)(npy_filename embedding_file \<mapsto> File (NpyFile E))\<rparr>)"
  using assms by (simp add: build_embedding_matrix_def api_load_def np_save_def)

lemma alloc_error_no_KeyError: "alloc_error env itemsize dims \<noteq> Some KeyError"
  by (simp add: alloc_error_def)

lemma create_error_no_KeyError: "create_error env path \<noteq> Some KeyError"
  by (simp add: create_error_def Let_def split: option.splits node.splits)

lemma np_load_no_KeyError: "np_load env path \<noteq> Inl KeyError"
  by (simp add: np_load_def split: option.splits node.splits content.splits list.splits)

lemma np_zeros_no_KeyError: "np_zeros env n d \<noteq> Inl KeyError"
  using alloc_error_no_KeyError [of env 8 "[int n, d]"]
  by (auto simp: np_zeros_def split: option.splits)

lemma np_save_no_KeyError: "np_save env file arr \<noteq> Inl KeyError"
  using create_error_no_KeyError [of env "npy_filename file"]
  by (auto simp: np_save_def Let_def split: option.splits)

lemma api_load_no_KeyError: "api_load env name \<noteq> Inl KeyError"
  by (simp add: api_load_def split: option.splits)

lemma build_no_KeyError:
  "fst (build_embedding_matrix sequences word2idx embedding_dim embedding_file env) \<noteq> Inl KeyError"
proof (cases "os_path_exists env embedding_file")
  case True
  then show ?thesis by (simp add: build_embedding_matrix_def np_load_no_KeyError)
next
  case miss: False
  show ?thesis
  proof (cases "np_zeros env (length word2idx) embedding_dim :: error + 'a ndarray")
    case (Inl e)
    with miss np_zeros_no_KeyError [of env "length word2idx" embedding_dim] show ?thesis
      by (auto simp: build_embedding_matrix_def)
  next
    case z: (Inr E0)
    show ?thesis
    proof (cases "api_load env EMBEDDING_MODEL")
      case (Inl e)
      with miss z api_load_no_KeyError [of env EMBEDDING_MODEL] show ?thesis
        by (auto simp: build_embedding_matrix_def)
    next
      case l: (Inr word_vectors)
      show ?thesis
      proof (cases "fill_rows word_vectors word2idx E0")
        case (Inl e)
        with miss z l fill_rows_no_KeyError [of word_vectors word2idx E0] show ?thesis
          by (auto simp: build_embedding_matrix_def)
      next
        case f: (Inr E)
        show ?thesis
        proof (cases "np_save env embedding_file E")
          case (Inl e)
          with miss z l f np_save_no_KeyError [of env embedding_file E] show ?thesis
            by (auto simp: build_embedding_matrix_def)
        next
          case (Inr env')
          with miss z l f show ?thesis by (simp add: build_embedding_matrix_def)
        qed
      qed
    qed
  qed
qed

text \<open>The sample environment and vocabulary meet the conditions of the cache-miss path.\<close>

lemma fresh_env_miss: "\<not> os_path_exists fresh_env ''data/E.npy''"
  by (simp add: os_path_exists_def fresh_env_def)

lemma toy_alloc: "alloc_error fresh_env 8 [int (length toy_vocab), 300] = None"
  by (simp add: alloc_error_def fresh_env_def toy_vocab_def)

lemma toy_create: "create_error fresh_env ''data/E.npy'' = None"
  by (simp add: create_error_def os_path_dirname_def rfind_def fresh_env_def)

lemma toy_preconditions:
  "alloc_error fresh_env 8 [int (length toy_vocab), 300] = None
   \<and> models fresh_env EMBEDDING_MODEL = Some toy_vectors
   \<and> (\<forall>(word, idx) \<in> set toy_vocab. 0 \<le> idx \<and> idx < int (length toy_vocab))
   \<and> (\<forall>(word, idx) \<in> set toy_vocab. \<forall>v. toy_vectors word = Some v \<longrightarrow> length v = nat 300)
   \<and> distinct (map snd toy_vocab)
   \<and> create_error fresh_env (npy_filename ''data/E.npy'') = None"
  using toy_alloc toy_create by (simp add: toy_defs npy_filename_def endswith_def)

lemma toy_fill:
  assumes "np_zeros fresh_env (length toy_vocab) 300 = Inr E0"
  shows "fill_rows toy_vectors toy_vocab E0 = Inr toy_matrix"
proof -
  from assms have E0: "E0 = \<lparr>shape = [3, 300], data = replicate 900 0\<rparr>"
    by (auto simp: np_zeros_def toy_vocab_def split: option.splits)
  then have m: "matrix 3 300 E0" by (simp add: matrix_def)
  have "setitem E0 1 (replicate 300 3) =
          Inr (E0\<lparr>data := take (nat 1 * 300) (data E0) @ replicate 300 3
                             @ drop (nat 1 * 300 + 300) (data E0)\<rparr>)"
    using m by (rule setitem_matrix) simp_all
  then have "setitem E0 1 (replicate 300 3) = Inr toy_matrix"
    by (simp add: E0 toy_matrix_def)
  then show ?thesis
    by (simp add: toy_vocab_def toy_vectors_def fill_rows_skip fill_rows_set)
qed

subsection \<open>The shape of the result\<close>

text \<open>
  Claim C1, as stated, says that the result has shape \<open>(V, D)\<close> on both paths. On the
  cache-hit path this fails: the stored array comes back whatever its shape. Here the cache
  file holds an array of shape \<open>(1, 3)\<close> and the call is for a vocabulary of 3 words and
  dimension 300.
\<close>

theorem build_embedding_matrix_stale_shape:
  "os_path_exists stale_env ''data/E.npy''
   \<and> build_embedding_matrix [] toy_vocab 300 ''data/E.npy'' stale_env
       = (Inr (Array stale_matrix), stale_env)
   \<and> shape stale_matrix \<noteq> [length toy_vocab, nat 300]"
  by (simp add: build_embedding_matrix_def os_path_exists_def np_load_def stale_env_def
      stale_matrix_def toy_vocab_def)

text \<open>
  Claim C1, amended: on the cache-miss path whatever \<^verbatim>\<open>build_embedding_matrix\<close>
  returns is an array of shape \<open>(V, D)\<close>, with \<open>V\<close> the number of vocabulary entries and
  \<open>D\<close> the embedding dimension, and of \<open>V * D\<close> elements; and the call does return one
  when numpy can allocate the \<open>V\<close> by \<open>D\<close> matrix of zeros, the embedding source loads,
  every index lies within the \<open>V\<close> rows, every vector found has length \<open>D\<close> or 1 and the
  cache file can be created.
\<close>

theorem build_embedding_matrix_shape:
  assumes "\<not> os_path_exists env embedding_file"
  shows "(\<forall>r env'. build_embedding_matrix sequences word2idx embedding_dim embedding_file env = (Inr r, env')
            \<longrightarrow> (\<exists>E. r = Array E \<and> shape E = [length word2idx, nat embedding_dim]
                      \<and> length (data E) = length word2idx * nat embedding_dim))
       \<and> (alloc_error env 8 [int (length word2idx), embedding_dim] = None
            \<and> models env EMBEDDING_MODEL = Some word_vectors
            \<and> (\<forall>(word, idx) \<in> set word2idx. - int (length word2idx) \<le> idx \<and> idx < int (length word2idx))
            \<and> (\<forall>(word, idx) \<in> set word2idx. \<forall>v. word_vectors word = Some v
                   \<longrightarrow> length v = nat embedding_dim \<or> length v = 1)
            \<and> create_error env (npy_filename embedding_file) = None
          \<longrightarrow> (\<exists>E env'. build_embedding_matrix sequences word2idx embedding_dim embedding_file env
                           = (Inr (Array E), env')))"
proof (intro conjI allI impI)
  fix r env'
  assume "build_embedding_matrix sequences word2idx embedding_dim embedding_file env = (Inr r, env')"
  with assms obtain E0 word_vectors E where r: "r = Array E"
    and z: "np_zeros env (length word2idx) embedding_dim = Inr E0"
    and f: "fill_rows word_vectors word2idx E0 = Inr E"
    by (rule build_miss_InrE)
  from z have m: "matrix (length word2idx) (nat embedding_dim) E0" by (simp add: np_zeros_matrix)
  from f have "shape E = shape E0 \<and> (well_shaped E0 \<longrightarrow> well_shaped E)" by (rule fill_rows_shape)
  with m have "matrix (length word2idx) (nat embedding_dim) E"
    by (simp add: matrix_def well_shaped_def)
  with r show "\<exists>E. r = Array E \<and> shape E = [length word2idx, nat embedding_dim]
                      \<and> length (data E) = length word2idx * nat embedding_dim"
    by (simp add: matrix_def)
next
  assume ok: "alloc_error env 8 [int (length word2idx), embedding_dim] = None
            \<and> models env EMBEDDING_MODEL = Some word_vectors
            \<and> (\<forall>(word, idx) \<in> set word2idx. - int (length word2idx) \<le> idx \<and> idx < int (length word2idx))
            \<and> (\<forall>(word, idx) \<in> set word2idx. \<forall>v. word_vectors word = Some v
                   \<longrightarrow> length v = nat embedding_dim \<or> length v = 1)
            \<and> create_error env (npy_filename embedding_file) = None"
  then obtain E0 :: "'a ndarray" where z: "np_zeros env (length word2idx) embedding_dim = Inr E0"
    using np_zeros_ok [of env "length word2idx" embedding_dim] by blast
  then have m: "matrix (length word2idx) (nat embedding_dim) E0" by (simp add: np_zeros_matrix)
  from ok have rng: "\<forall>(word, idx) \<in> set word2idx. - int (length word2idx) \<le> idx \<and> idx < int (length word2idx)"
    and lens: "\<forall>(word, idx) \<in> set word2idx. \<forall>v. word_vectors word = Some v
                   \<longrightarrow> length v = nat embedding_dim \<or> length v = 1"
    and load: "models env EMBEDDING_MODEL = Some word_vectors"
    and wr: "create_error env (npy_filename embedding_file) = None"
    by blast+
  from fill_rows_ok [OF m rng lens] obtain E where f: "fill_rows word_vectors word2idx E0 = Inr E"
    by blast
  from assms z load f wr
  have "build_embedding_matrix sequences word2idx embedding_dim embedding_file env =
           (Inr (Array E), env\<lparr>fs := (fs env)(npy_filename embedding_file \<mapsto> File (NpyFile E))\<rparr>)"
    by (rule build_miss_run)
  then show "\<exists>E env'. build_embedding_matrix sequences word2idx embedding_dim embedding_file env
                           = (Inr (Array E), env')"
    by blast
qed

theorem build_embedding_matrix_shape_witness:
  "\<not> os_path_exists fresh_env ''data/E.npy''
   \<and> (\<exists>E env'. build_embedding_matrix [] toy_vocab 300 ''data/E.npy'' fresh_env = (Inr (Array E), env')
         \<and> shape E = [3, 300] \<and> length (data E) = 900)"
proof -
  note shape = build_embedding_matrix_shape [OF fresh_env_miss, of "[]" toy_vocab 300 toy_vectors]
  from toy_preconditions
  have "alloc_error fresh_env 8 [int (length toy_vocab), 300] = None
   \<and> models fresh_env EMBEDDING_MODEL = Some toy_vectors
   \<and> (\<forall>(word, idx) \<in> set toy_vocab. - int (length toy_vocab) \<le> idx \<and> idx < int (length toy_vocab))
   \<and> (\<forall>(word, idx) \<in> set toy_vocab. \<forall>v. toy_vectors word = Some v
          \<longrightarrow> length v = nat 300 \<or> length v = 1)
   \<and> create_error fresh_env (npy_filename ''data/E.npy'') = None"
    by (simp add: toy_vocab_def)
  with shape obtain E env'
    where r: "build_embedding_matrix [] toy_vocab 300 ''data/E.npy'' fresh_env = (Inr (Array E), env')"
    by blast
  with shape have "shape E = [length toy_vocab, nat 300] \<and> length (data E) = length toy_vocab * nat 300"
    by blast
  then have "shape E = [3, 300] \<and> length (data E) = 900" by (simp add: toy_vocab_def)
  with r fresh_env_miss show ?thesis by blast
qed

subsection \<open>The cache-hit path\<close>



text \<open>
  Claim C5: when the cache file exists, a call leaves the environment as it was, so a
  second call with the same vocabulary, dimension and cache path gives what the first
  gave.
\<close>

theorem build_embedding_matrix_idempotent:
  assumes "os_path_exists env embedding_file"
  shows "snd (build_embedding_matrix sequences1 word2idx embedding_dim embedding_file env) = env
       \<and> build_embedding_matrix sequences2 word2idx embedding_dim embedding_file
           (snd (build_embedding_matrix sequences1 word2idx embedding_dim embedding_file env))
         = build_embedding_matrix sequences1 word2idx embedding_dim embedding_file env"
  using assms by (simp add: build_embedding_matrix_def)

theorem build_embedding_matrix_idempotent_witness:
  "os_path_exists stale_env ''data/E.npy''
   \<and> fst (build_embedding_matrix [] toy_vocab 300 ''data/E.npy'' stale_env) = Inr (Array stale_matrix)
   \<and> fst (build_embedding_matrix [[0, 1]] toy_vocab 300 ''data/E.npy''
            (snd (build_embedding_matrix [] toy_vocab 300 ''data/E.npy'' stale_env)))
       = Inr (Array stale_matrix)"
proof -
  have hit: "os_path_exists stale_env ''data/E.npy''"
    by (simp add: os_path_exists_def stale_env_def)
  have first: "fst (build_embedding_matrix [] toy_vocab 300 ''data/E.npy'' stale_env)
      = Inr (Array stale_matrix)"
    by (simp add: build_embedding_matrix_def os_path_exists_def np_load_def stale_env_def)
  have second: "build_embedding_matrix [[0, 1]] toy_vocab 300 ''data/E.npy''
            (snd (build_embedding_matrix [] toy_vocab 300 ''data/E.npy'' stale_env))
      = build_embedding_matrix [] toy_vocab 300 ''data/E.npy'' stale_env"
    using build_embedding_matrix_idempotent [OF hit, of "[]" toy_vocab 300 "[[0, 1]]"]
    by (rule conjunct2)
  show ?thesis by (simp only: hit first second)
qed

subsection \<open>The cache-miss path\<close>

text \<open>
  Claim C3: a KeyError never leaves \<^verbatim>\<open>build_embedding_matrix\<close>; and on the
  cache-miss path, for a vocabulary whose indices are distinct and lie in \<open>0, ..., V - 1\<close>
  and a source whose vectors have the embedding dimension, when numpy can allocate the
  matrix of zeros, the source loads and the cache file can be created, the call returns
  an array in which, for every pair of a word and its index, the row at the index is the
  word's vector when the source has the word and is all zeros when it has not.
\<close>

theorem build_embedding_matrix_rows:
  "fst (build_embedding_matrix sequences word2idx embedding_dim embedding_file env) \<noteq> Inl KeyError
   \<and> (\<not> os_path_exists env embedding_file
        \<and> alloc_error env 8 [int (length word2idx), embedding_dim] = None
        \<and> models env EMBEDDING_MODEL = Some word_vectors
        \<and> (\<forall>(word, idx) \<in> set word2idx. 0 \<le> idx \<and> idx < int (length word2idx))
        \<and> (\<forall>(word, idx) \<in> set word2idx. \<forall>v. word_vectors word = Some v \<longrightarrow> length v = nat embedding_dim)
        \<and> distinct (map snd word2idx)
        \<and> create_error env (npy_filename embedding_file) = None
      \<longrightarrow> (\<exists>E env'. build_embedding_matrix sequences word2idx embedding_dim embedding_file env
                       = (Inr (Array E), env')
             \<and> (\<forall>(word, idx) \<in> set word2idx.
                   getitem E idx = Inr (case word_vectors word of
                                          Some v \<Rightarrow> v
                                        | None \<Rightarrow> replicate (nat embedding_dim) 0))))"
proof (intro conjI impI)
  show "fst (build_embedding_matrix sequences word2idx embedding_dim embedding_file env) \<noteq> Inl KeyError"
    by (rule build_no_KeyError)
next
  let ?n = "length word2idx" and ?d = "nat embedding_dim"
  assume ok: "\<not> os_path_exists env embedding_file
        \<and> alloc_error env 8 [int (length word2idx), embedding_dim] = None
        \<and> models env EMBEDDING_MODEL = Some word_vectors
        \<and> (\<forall>(word, idx) \<in> set word2idx. 0 \<le> idx \<and> idx < int (length word2idx))
        \<and> (\<forall>(word, idx) \<in> set word2idx. \<forall>v. word_vectors word = Some v \<longrightarrow> length v = nat embedding_dim)
        \<and> distinct (map snd word2idx)
        \<and> create_error env (npy_filename embedding_file) = None"
  then have miss: "\<not> os_path_exists env embedding_file"
    and load: "models env EMBEDDING_MODEL = Some word_vectors"
    and rng: "\<forall>(word, idx) \<in> set word2idx. 0 \<le> idx \<and> idx < int ?n"
    and lens: "\<forall>(word, idx) \<in> set word2idx. \<forall>v. word_vectors word = Some v \<longrightarrow> length v = ?d"
    and dist: "distinct (map snd word2idx)"
    and wr: "create_error env (npy_filename embedding_file) = None"
    by blast+
  from ok obtain E0 :: "'a ndarray" where z: "np_zeros env ?n embedding_dim = Inr E0"
    using np_zeros_ok [of env ?n embedding_dim] by blast
  then have m: "matrix ?n ?d E0" by (simp add: np_zeros_matrix)
  from fill_rows_rows [OF m rng lens dist]
  obtain E where f: "fill_rows word_vectors word2idx E0 = Inr E"
    and rows: "\<forall>(word, idx) \<in> set word2idx.
                 getitem E idx = (case word_vectors word of Some v \<Rightarrow> Inr v | None \<Rightarrow> getitem E0 idx)"
    by blast
  have "getitem E idx = Inr (case word_vectors word of Some v \<Rightarrow> v | None \<Rightarrow> replicate ?d 0)"
    if "(word, idx) \<in> set word2idx" for word idx
  proof -
    from that rng have "0 \<le> idx" "idx < int ?n" by auto
    with z have "getitem E0 idx = Inr (replicate ?d 0)" by (simp add: getitem_zeros)
    moreover from rows that
    have "getitem E idx = (case word_vectors word of Some v \<Rightarrow> Inr v | None \<Rightarrow> getitem E0 idx)"
      by blast
    ultimately show ?thesis by (simp split: option.split)
  qed
  then have "\<forall>(word, idx) \<in> set word2idx.
                getitem E idx = Inr (case word_vectors word of Some v \<Rightarrow> v | None \<Rightarrow> replicate ?d 0)"
    by blast
  moreover from miss z load f wr
  have "build_embedding_matrix sequences word2idx embedding_dim embedding_file env =
           (Inr (Array E), env\<lparr>fs := (fs env)(npy_filename embedding_file \<mapsto> File (NpyFile E))\<rparr>)"
    by (rule build_miss_run)
  ultimately show "\<exists>E env'. build_embedding_matrix sequences word2idx embedding_dim embedding_file env
                       = (Inr (Array E), env')
             \<and> (\<forall>(word, idx) \<in> set word2idx.
                   getitem E idx = Inr (case word_vectors word of
                                          Some v \<Rightarrow> v
                                        | None \<Rightarrow> replicate (nat embedding_dim) 0))"
    by blast
qed

theorem build_embedding_matrix_rows_witness:
  "\<exists>E env'. build_embedding_matrix [] toy_vocab 300 ''data/E.npy'' fresh_env = (Inr (Array E), env')
     \<and> getitem E 1 = Inr (replicate 300 3) \<and> getitem E 2 = Inr (replicate 300 0)
     \<and> getitem E 0 = Inr (replicate 300 0)"
proof -
  from build_embedding_matrix_rows [of "[]" toy_vocab 300 "''data/E.npy''" fresh_env toy_vectors]
    fresh_env_miss toy_preconditions
  obtain E env'
    where r: "build_embedding_matrix [] toy_vocab 300 ''data/E.npy'' fresh_env = (Inr (Array E), env')"
    and rows: "\<forall>(word, idx) \<in> set toy_vocab.
                   getitem E idx = Inr (case toy_vectors word of
                                          Some v \<Rightarrow> v
                                        | None \<Rightarrow> replicate (nat 300) 0)"
    by blast
  from rows have "getitem E 1 = Inr (replicate 300 3) \<and> getitem E 2 = Inr (replicate 300 0)
      \<and> getitem E 0 = Inr (replicate 300 0)"
    by (simp add: toy_vocab_def toy_vectors_def)
  with r show ?thesis by blast
qed

text \<open>
  Claim C4 says that after a call on the cache-miss path the cache file exists and holds
  the returned array. For the cache path \<^verbatim>\<open>data/E\<close> the call returns the array and
  writes it to \<^verbatim>\<open>data/E.npy\<close>; the cache path itself still does not exist, so the
  next call computes the array again.
\<close>

theorem build_embedding_matrix_cache_path_unwritten:
  "\<not> os_path_exists fresh_env ''data/E''
   \<and> fst (build_embedding_matrix [] toy_vocab 300 ''data/E'' fresh_env) = Inr (Array toy_matrix)
   \<and> fs (snd (build_embedding_matrix [] toy_vocab 300 ''data/E'' fresh_env)) ''data/E'' = None
   \<and> fs (snd (build_embedding_matrix [] toy_vocab 300 ''data/E'' fresh_env)) ''data/E.npy''
       = Some (File (NpyFile toy_matrix))"
proof -
  have miss: "\<not> os_path_exists fresh_env ''data/E''"
    by (simp add: os_path_exists_def fresh_env_def)
  have name: "npy_filename ''data/E'' = ''data/E.npy''"
    by (simp add: npy_filename_def endswith_def)
  obtain E0 :: "int ndarray" where z: "np_zeros fresh_env (length toy_vocab) 300 = Inr E0"
    using np_zeros_ok [OF toy_alloc] by blast
  from z have f: "fill_rows toy_vectors toy_vocab E0 = Inr toy_matrix" by (rule toy_fill)
  have l: "models fresh_env EMBEDDING_MODEL = Some toy_vectors"
    by (simp add: fresh_env_def EMBEDDING_MODEL_def)
  have c: "create_error fresh_env (npy_filename ''data/E'') = None"
    using toy_create by (simp add: name)
  have "build_embedding_matrix [] toy_vocab 300 ''data/E'' fresh_env =
          (Inr (Array toy_matrix),
           fresh_env\<lparr>fs := (fs fresh_env)(npy_filename ''data/E'' \<mapsto> File (NpyFile toy_matrix))\<rparr>)"
    using miss z l f c by (rule build_miss_run)
  with miss show ?thesis by (simp add: name fresh_env_def)
qed

text \<open>
  For a cache path that ends in \<^verbatim>\<open>.npy\<close> the returned array is stored at the
  cache path.
\<close>

lemma build_embedding_matrix_saves_npy:
  assumes "\<not> os_path_exists env embedding_file" and "endswith embedding_file ''.npy''"
    and "build_embedding_matrix sequences word2idx embedding_dim embedding_file env = (Inr r, env')"
  shows "\<exists>E. r = Array E \<and> fs env' embedding_file = Some (File (NpyFile E))"
proof -
  from assms(1,3) obtain E where "r = Array E" and "np_save env embedding_file E = Inr env'"
    by (rule build_miss_InrE)
  with assms(2) show ?thesis
    by (auto simp: np_save_def npy_filename_def Let_def split: option.splits)
qed

text \<open>
  Claim C10: the argument \<^verbatim>\<open>sequences\<close> is not used: two calls that differ only in
  it give the same result and the same environment.
\<close>

theorem build_embedding_matrix_ignores_sequences:
  "build_embedding_matrix sequences1 word2idx embedding_dim embedding_file env
     = build_embedding_matrix sequences2 word2idx embedding_dim embedding_file env"
  by (simp add: build_embedding_matrix_def)

section \<open>The predictor: padding and threshold\<close>

lemma as_int32_array_length:
  assumes "as_int32_array xs = Inr ys"
  shows "length ys = length xs"
  using assms
  by (induction xs arbitrary: ys) (auto split: sum.splits)

lemma as_int32_array_ok:
  assumes "\<forall>x \<in> set xs. - (2 ^ 31) \<le> x \<and> x < 2 ^ 31"
  shows "\<exists>ys. as_int32_array xs = Inr ys"
  using assms
proof (induction xs)
  case Nil
  show ?case by simp
next
  case (Cons x xs)
  then obtain ys where "as_int32_array xs = Inr ys" by auto
  moreover from Cons.prems have "- (2 ^ 31) \<le> x" "x < 2 ^ 31" by simp_all
  then have "\<exists>y. as_int32 x = Inr y" by (simp add: as_int32_def)
  ultimately show ?case by auto
qed

lemma pad_row_length:
  assumes "pad_row maxlen s = Inr row" and "0 \<le> maxlen"
  shows "int (length row) = maxlen"
  using assms by (auto simp: pad_row_def split: if_splits sum.splits)

lemma pad_row_ok:
  assumes "0 < maxlen" and "\<forall>x \<in> set s. - (2 ^ 31) \<le> x \<and> x < 2 ^ 31"
  shows "\<exists>row. pad_row maxlen s = Inr row"
proof -
  let ?t = "drop (length s - nat maxlen) s"
  from assms(2) have "\<forall>x \<in> set ?t. - (2 ^ 31) \<le> x \<and> x < 2 ^ 31"
    by (meson in_set_dropD)
  then obtain trunc where t: "as_int32_array ?t = Inr trunc"
    using as_int32_array_ok by blast
  then have "length trunc = length ?t" by (rule as_int32_array_length)
  with assms(1) have "length trunc \<le> nat maxlen" by simp
  with assms(1) t show ?thesis by (simp add: pad_row_def)
qed

lemma padded_sequence_row:
  "padded_sequence message tokenizer max_seqlen env =
     (case alloc_error env 4 [1, max_seqlen] of
        Some e \<Rightarrow> Inl e
      | None \<Rightarrow>
          (case pad_row max_seqlen (sequence_of tokenizer message) of
             Inl e \<Rightarrow> Inl e
           | Inr row \<Rightarrow> Inr [row]))"
  by (simp add: padded_sequence_def texts_to_sequences_def pad_sequences_def
      split: sum.splits option.splits)

lemma subscript_nth: "i < length xs \<Longrightarrow> subscript xs i = Inr (xs ! i)"
  by (simp add: subscript_def)

lemma predict_spam_labels:
  assumes "predict_spam message model tokenizer max_seqlen env = Inr label"
  shows "label = ''Spam'' \<or> label = ''Not Spam''"
proof -
  from assms obtain spam_prediction
    where "label = (if float_gt spam_prediction 0.5 then ''Spam'' else ''Not Spam'')"
    by (auto simp: predict_spam_def split: sum.split_asm)
  then show ?thesis by simp
qed

text \<open>The sample tokenizer on two messages, and the padded inputs.\<close>

lemma toy_sequences:
  "sequence_of toy_tokenizer (str ''free cash now'') = [1, 2]"
  "sequence_of toy_tokenizer (str ''hello there'') = [3]"
  by code_simp+

lemma toy_alloc_row: "alloc_error fresh_env 4 [1, 4] = None"
  by (simp add: alloc_error_def fresh_env_def)

lemma toy_rows:
  "pad_row 4 [1, 2] = Inr [0, 0, 1, 2]"
  "pad_row 4 [3] = Inr [0, 0, 0, 3]"
  by (simp_all add: pad_row_def as_int32_def numeral_2_eq_2 numeral_3_eq_3)

lemma toy_padded:
  "padded_sequence (str ''free cash now'') toy_tokenizer 4 fresh_env = Inr [[0, 0, 1, 2]]"
  "padded_sequence (str ''hello there'') toy_tokenizer 4 fresh_env = Inr [[0, 0, 0, 3]]"
  by (simp_all add: padded_sequence_row toy_alloc_row toy_sequences toy_rows)

text \<open>
  Claim C8: the padded input that \<^verbatim>\<open>predict_spam\<close> builds is one row of length
  exactly \<^verbatim>\<open>max_seqlen\<close>, whatever the message; and it is built for every message
  whose word indices are 32 bit integers when \<^verbatim>\<open>max_seqlen\<close> is positive and numpy can
  allocate the row.
\<close>

theorem padded_sequence_length:
  "(\<forall>padded. padded_sequence message tokenizer max_seqlen env = Inr padded
       \<longrightarrow> length padded = 1 \<and> (\<forall>row \<in> set padded. int (length row) = max_seqlen))
   \<and> (0 < max_seqlen \<and> alloc_error env 4 [1, max_seqlen] = None
        \<and> (\<forall>i \<in> set (sequence_of tokenizer message). - (2 ^ 31) \<le> i \<and> i < 2 ^ 31)
      \<longrightarrow> (\<exists>padded. padded_sequence message tokenizer max_seqlen env = Inr padded))"
proof (intro conjI allI impI)
  fix padded
  assume p: "padded_sequence message tokenizer max_seqlen env = Inr padded"
  then have ok: "alloc_error env 4 [1, max_seqlen] = None"
    by (auto simp: padded_sequence_row split: option.splits)
  then have nonneg: "0 \<le> max_seqlen" by (rule alloc_error_nonneg) simp
  from p ok obtain row where row: "pad_row max_seqlen (sequence_of tokenizer message) = Inr row"
    and padded: "padded = [row]"
    by (auto simp: padded_sequence_row split: sum.splits)
  from row nonneg have "int (length row) = max_seqlen" by (rule pad_row_length)
  with padded show "length padded = 1" and "\<forall>row \<in> set padded. int (length row) = max_seqlen"
    by simp_all
next
  assume ok: "0 < max_seqlen \<and> alloc_error env 4 [1, max_seqlen] = None
        \<and> (\<forall>i \<in> set (sequence_of tokenizer message). - (2 ^ 31) \<le> i \<and> i < 2 ^ 31)"
  then obtain row where "pad_row max_seqlen (sequence_of tokenizer message) = Inr row"
    using pad_row_ok [of max_seqlen "sequence_of tokenizer message"] by blast
  with ok show "\<exists>padded. padded_sequence message tokenizer max_seqlen env = Inr padded"
    by (simp add: padded_sequence_row)
qed

theorem padded_sequence_length_witness:
  "padded_sequence (str ''free cash now'') toy_tokenizer 4 fresh_env = Inr [[0, 0, 1, 2]]
   \<and> length [[0, 0, 1, 2::int]] = 1 \<and> int (length [0, 0, 1, 2::int]) = 4"
  using padded_sequence_length [of "str ''free cash now''" toy_tokenizer 4 fresh_env]
    toy_padded(1) toy_alloc_row toy_sequences(1)
  by simp

text \<open>
  Claim C6: whatever \<^verbatim>\<open>predict_spam\<close> returns is one of the two strings
  \<^verbatim>\<open>"Spam"\<close> and \<^verbatim>\<open>"Not Spam"\<close>; and when the model's inference gives at least
  one row of at least two scores, it reads the score at position 1 of row 0 and returns
  \<^verbatim>\<open>"Spam"\<close> when that score is greater than 0.5 and \<^verbatim>\<open>"Not Spam"\<close> otherwise.
\<close>

theorem predict_spam_threshold:
  "(\<forall>label. predict_spam message model tokenizer max_seqlen env = Inr label
       \<longrightarrow> label = ''Spam'' \<or> label = ''Not Spam'')
   \<and> (padded_sequence message tokenizer max_seqlen env = Inr padded
        \<and> predict model padded = Inr prediction
        \<and> 0 < length prediction \<and> 1 < length (prediction ! 0)
      \<longrightarrow> predict_spam message model tokenizer max_seqlen env =
            Inr (if float_gt (prediction ! 0 ! 1) 0.5 then ''Spam'' else ''Not Spam''))"
proof (intro conjI allI impI)
  fix label
  assume "predict_spam message model tokenizer max_seqlen env = Inr label"
  then show "label = ''Spam'' \<or> label = ''Not Spam''" by (rule predict_spam_labels)
next
  assume "padded_sequence message tokenizer max_seqlen env = Inr padded
        \<and> predict model padded = Inr prediction
        \<and> 0 < length prediction \<and> 1 < length (prediction ! 0)"
  then show "predict_spam message model tokenizer max_seqlen env =
            Inr (if float_gt (prediction ! 0 ! 1) 0.5 then ''Spam'' else ''Not Spam'')"
    by (simp add: predict_spam_def subscript_nth)
qed

theorem predict_spam_threshold_witness:
  "predict_spam (str ''free cash now'') toy_model toy_tokenizer 4 fresh_env = Inr ''Spam''
   \<and> predict_spam (str ''hello there'') toy_model toy_tokenizer 4 fresh_env = Inr ''Not Spam''"
proof -
  have out1: "predict toy_model [[0, 0, 1, 2]] = Inr [[Finite 0.1, Finite 0.9]]"
    by (simp add: toy_model_def)
  have out2: "predict toy_model [[0, 0, 0, 3]] = Inr [[Finite 0.8, Finite 0.2]]"
    by (simp add: toy_model_def)
  show ?thesis
    using predict_spam_threshold [of "str ''free cash now''" toy_model toy_tokenizer 4 fresh_env
        "[[0, 0, 1, 2]]" "[[Finite 0.1, Finite 0.9]]"]
      predict_spam_threshold [of "str ''hello there''" toy_model toy_tokenizer 4 fresh_env
        "[[0, 0, 0, 3]]" "[[Finite 0.8, Finite 0.2]]"]
      toy_padded out1 out2
    by simp
qed

section \<open>The data loader: labels\<close>

lemma read_lines_step:
  assumes "read_lines (line # lines) labels texts = Inr r"
  obtains body where "split (strip line) TAB = [label_field line, body]"
    and "read_lines lines (labels @ [encode_label line]) (texts @ [body]) = Inr r"
  using assms
  by (auto simp: label_field_def encode_label_def split: list.splits)

lemma read_lines_labels:
  assumes "read_lines lines labels texts = Inr (labels', texts')"
  shows "labels' = labels @ map encode_label lines \<and> length texts' = length texts + length lines"
  using assms
proof (induction lines arbitrary: labels texts)
  case Nil
  then show ?case by simp
next
  case (Cons line lines)
  from Cons.prems obtain body
    where "read_lines lines (labels @ [encode_label line]) (texts @ [body]) = Inr (labels', texts')"
    by (rule read_lines_step)
  then have "labels' = (labels @ [encode_label line]) @ map encode_label lines
      \<and> length texts' = length (texts @ [body]) + length lines"
    by (rule Cons.IH)
  then show ?case by simp
qed

lemma count_spam:
  "count_list (map encode_label lines) 1 = length (filter (\<lambda>line. label_field line = str ''spam'') lines)"
  by (induction lines) (simp_all add: encode_label_def)

lemma count_ham:
  "count_list (map encode_label lines) 0 = length (filter (\<lambda>line. label_field line \<noteq> str ''spam'') lines)"
  by (induction lines) (simp_all add: encode_label_def)

lemma read_data_InrE:
  assumes "fst (read_data local_zip_path env) = Inr (texts, labels)"
  obtains lines where
    "open_text (snd (read_data local_zip_path env))
       (os_path_join (fst (os_path_splitext local_zip_path)) ''SMSSpamCollection'') = Inr lines"
    and "read_lines lines [] [] = Inr (labels, texts)"
  using assms
  by (auto simp: read_data_def Let_def split: sum.splits if_splits prod.splits option.splits)

text \<open>The sample archive: its paths, its extraction and its lines.\<close>

lemma sms_paths:
  "os_path_splitext ''smsspamcollection.zip'' = (''smsspamcollection'', ''.zip'')"
  "os_path_join ''smsspamcollection'' ''SMSSpamCollection'' = ''smsspamcollection/SMSSpamCollection''"
  "os_path_join ''smsspamcollection'' ''readme'' = ''smsspamcollection/readme''"
  "os_path_dirname ''smsspamcollection/SMSSpamCollection'' = ''smsspamcollection''"
  "os_path_dirname ''smsspamcollection/readme'' = ''smsspamcollection''"
  "parent_dirs ''smsspamcollection'' = []"
  by code_simp+

lemma sms_extract:
  "fst (zip_extractall sms_env ''smsspamcollection.zip'' ''smsspamcollection'') = None"
  "fs (snd (zip_extractall sms_env ''smsspamcollection.zip'' ''smsspamcollection''))
     ''smsspamcollection/SMSSpamCollection'' = Some (File (TextFile sms_lines))"
  by (simp_all add: zip_extractall_def extract_member_def os_makedirs_def create_error_def
      os_path_exists_def sms_paths sms_env_def)

lemma sms_loop: "read_lines sms_lines [] [] = Inr ([0, 1, 0, 1], sms_texts)"
  by (simp add: sms_lines_def sms_texts_def tsv_line_def str_def strip_def isspace_def TAB_def)

lemma sms_fields:
  "map label_field sms_lines = [str ''ham'', str ''spam'', str ''ham'', str ''spam'']"
  by (simp add: sms_lines_def label_field_def tsv_line_def str_def strip_def isspace_def TAB_def)

text \<open>
  Claim C9: when \<^verbatim>\<open>read_data\<close> returns, the labels are the encodings of the lines of
  the collection file, in order: each is 0 or 1, there are as many texts as labels, the
  number of labels 1 is the number of lines whose label field is \<^verbatim>\<open>spam\<close> and the
  number of labels 0 is the number of the other lines.
\<close>

theorem read_data_label_counts:
  assumes "fst (read_data local_zip_path env) = Inr (texts, labels)"
  shows "\<exists>lines.
           open_text (snd (read_data local_zip_path env))
             (os_path_join (fst (os_path_splitext local_zip_path)) ''SMSSpamCollection'') = Inr lines
         \<and> labels = map encode_label lines
         \<and> length texts = length labels
         \<and> set labels \<subseteq> {0, 1}
         \<and> count_list labels 1 = length (filter (\<lambda>line. label_field line = str ''spam'') lines)
         \<and> count_list labels 0 = length (filter (\<lambda>line. label_field line \<noteq> str ''spam'') lines)"
proof -
  from assms obtain lines where
    opened: "open_text (snd (read_data local_zip_path env))
       (os_path_join (fst (os_path_splitext local_zip_path)) ''SMSSpamCollection'') = Inr lines"
    and loop: "read_lines lines [] [] = Inr (labels, texts)"
    by (rule read_data_InrE)
  from loop have labels: "labels = map encode_label lines" and len: "length texts = length lines"
    using read_lines_labels [of lines "[]" "[]" labels texts] by simp_all
  from labels have "set labels \<subseteq> {0, 1}" by (auto simp: encode_label_def)
  with opened labels len show ?thesis by (auto simp: count_spam count_ham)
qed

theorem read_data_label_counts_witness:
  "fst (read_data ''smsspamcollection.zip'' sms_env) = Inr (sms_texts, [0, 1, 0, 1])
   \<and> map label_field sms_lines = [str ''ham'', str ''spam'', str ''ham'', str ''spam'']
   \<and> count_list [0, 1, 0, 1::int] 1 = 2 \<and> count_list [0, 1, 0, 1::int] 0 = 2"
proof -
  have closed: "\<not> os_path_isdir sms_env ''smsspamcollection''"
    by (simp add: os_path_isdir_def sms_env_def)
  define env1 where "env1 = snd (zip_extractall sms_env ''smsspamcollection.zip'' ''smsspamcollection'')"
  have extracted: "zip_extractall sms_env ''smsspamcollection.zip'' ''smsspamcollection'' = (None, env1)"
    using sms_extract(1) by (simp add: env1_def prod_eq_iff)
  have opened: "open_text env1 ''smsspamcollection/SMSSpamCollection'' = Inr sms_lines"
    using sms_extract(2) by (simp add: env1_def open_text_def)
  have run: "fst (read_data ''smsspamcollection.zip'' sms_env) = Inr (sms_texts, [0, 1, 0, 1])"
    using closed extracted opened
    by (simp add: read_data_def Let_def sms_paths(1,2) sms_loop)
  show ?thesis
    using read_data_label_counts [OF run] run sms_fields by simp
qed

end
